theory Spec2Isabelle
  imports Main "HOL-Library.AList" "HOL-Library.Word"
begin

unbundle bit_operations_syntax

section \<open>Duplicate analyzer: \<^verbatim>\<open>scanner/duplicate_finder.py\<close>\<close>

subsection \<open>File records\<close>

text \<open>
  A file record is a Python dict with the keys \<^verbatim>\<open>"path"\<close>, \<^verbatim>\<open>"size"\<close>, \<^verbatim>\<open>"name"\<close> and
  \<^verbatim>\<open>"hash"\<close>.  The analyzer reads the keys with \<^verbatim>\<open>dict.get\<close>, so a key may be missing:
  each field is an option, \<open>None\<close> standing for a missing key (what \<^verbatim>\<open>.get\<close> returns then).
  The field for the key \<^verbatim>\<open>"size"\<close> is called \<open>size'\<close>, since \<open>size\<close> is a constant of HOL.
\<close>

record file_info =
  path :: "string option"
  size' :: "int option"
  name :: "string option"
  hash :: "string option"

text \<open>Python's \<^verbatim>\<open>not x\<close> for a value that is \<^verbatim>\<open>None\<close> or a string: true for \<^verbatim>\<open>None\<close> and \<^verbatim>\<open>""\<close>.\<close>

fun py_not :: "string option \<Rightarrow> bool" where
  "py_not None = True"
| "py_not (Some s) = (s = [])"

subsection \<open>\<^verbatim>\<open>find_duplicates\<close>\<close>

text \<open>
  \<^verbatim>\<open>hash_groups\<close> is a Python dict, which keeps its keys in insertion order: an association
  list with distinct keys, a new key going to the end (\<open>AList.update\<close>) and a present key
  being changed in place (\<open>AList.map_entry\<close>).  One iteration of the loop:
  \<^verbatim>\<open>
    file_hash = file_info.get("hash")
    file_path = file_info.get("path")
    if not file_hash or not file_path:
        continue
    if file_hash not in hash_groups:
        hash_groups[file_hash] = []
    hash_groups[file_hash].append(file_path)
  \<close>
\<close>

definition group_step :: "file_info \<Rightarrow> (string \<times> string list) list \<Rightarrow> (string \<times> string list) list" where
  "group_step file_info hash_groups =
     (let file_hash = hash file_info; file_path = path file_info in
      if py_not file_hash \<or> py_not file_path then hash_groups
      else
        let hash_groups' =
              (if the file_hash \<notin> fst ` set hash_groups
               then AList.update (the file_hash) [] hash_groups else hash_groups)
        in AList.map_entry (the file_hash) (\<lambda>paths. paths @ [the file_path]) hash_groups')"

text \<open>The dict after the whole loop.\<close>

definition hash_groups_of :: "file_info list \<Rightarrow> (string \<times> string list) list" where
  "hash_groups_of file_metadata = fold group_step file_metadata []"

text \<open>
  \<^verbatim>\<open>duplicates = [paths for paths in hash_groups.values() if len(paths) > 1]\<close>
\<close>

definition find_duplicates :: "file_info list \<Rightarrow> string list list" where
  "find_duplicates file_metadata =
     filter (\<lambda>paths. length paths > 1) (map snd (hash_groups_of file_metadata))"

subsection \<open>\<^verbatim>\<open>count_duplicates\<close>\<close>

record duplicate_counts =
  groups :: int
  files :: int

definition count_duplicates :: "file_info list \<Rightarrow> duplicate_counts" where
  "count_duplicates file_metadata =
     (let duplicate_groups = find_duplicates file_metadata;
          total_duplicate_files = sum_list (map (\<lambda>group. int (length group)) duplicate_groups)
      in \<lparr>groups = int (length duplicate_groups), files = total_duplicate_files\<rparr>)"

subsection \<open>\<^verbatim>\<open>calculate_wasted_space\<close>\<close>

text \<open>
  The values of this function's \<^verbatim>\<open>hash_groups\<close> are dicts with the keys \<^verbatim>\<open>"count"\<close> and
  \<^verbatim>\<open>"size"\<close> (here \<open>group_size\<close>).  One iteration of the first loop:
  \<^verbatim>\<open>
    file_hash = file_info.get("hash")
    file_size = file_info.get("size", 0)
    if not file_hash:
        continue
    if file_hash not in hash_groups:
        hash_groups[file_hash] = {"count": 0, "size": file_size}
    hash_groups[file_hash]["count"] += 1
  \<close>
\<close>

record group_info =
  count :: int
  group_size :: int

definition wasted_step :: "file_info \<Rightarrow> (string \<times> group_info) list \<Rightarrow> (string \<times> group_info) list" where
  "wasted_step file_info hash_groups =
     (let file_hash = hash file_info;
          file_size = (case size' file_info of None \<Rightarrow> 0 | Some s \<Rightarrow> s) in
      if py_not file_hash then hash_groups
      else
        let hash_groups' =
              (if the file_hash \<notin> fst ` set hash_groups
               then AList.update (the file_hash) \<lparr>count = 0, group_size = file_size\<rparr> hash_groups
               else hash_groups)
        in AList.map_entry (the file_hash) (\<lambda>g. g\<lparr>count := count g + 1\<rparr>) hash_groups')"

definition size_groups_of :: "file_info list \<Rightarrow> (string \<times> group_info) list" where
  "size_groups_of file_metadata = fold wasted_step file_metadata []"

text \<open>
  The second loop:
  \<^verbatim>\<open>
    wasted_space = 0
    for group_info in hash_groups.values():
        if group_info["count"] > 1:
            wasted_space += (group_info["count"] - 1) * group_info["size"]
  \<close>
\<close>

definition wasted_add :: "group_info \<Rightarrow> int \<Rightarrow> int" where
  "wasted_add group_info wasted_space =
     (if count group_info > 1
      then wasted_space + (count group_info - 1) * group_size group_info
      else wasted_space)"

definition calculate_wasted_space :: "file_info list \<Rightarrow> int" where
  "calculate_wasted_space file_metadata =
     fold wasted_add (map snd (size_groups_of file_metadata)) 0"

section \<open>Digest computation: \<^verbatim>\<open>scanner/hash_utils.py\<close>\<close>

subsection \<open>\<^verbatim>\<open>hashlib.sha256\<close>\<close>

text \<open>
  \<^verbatim>\<open>hashlib\<close> belongs to Python's standard library, not to the repository.  The model
  follows FIPS 180-4: a message of bytes is padded, cut into blocks of 64 bytes, and every
  block is compressed into a state of eight 32-bit words.  A hash object
  (\<^verbatim>\<open>hashlib.sha256()\<close>) is modelled by the bytes it has been fed so far: \<^verbatim>\<open>update\<close> appends a
  chunk and \<^verbatim>\<open>hexdigest\<close> hashes the whole and prints it in lowercase hexadecimal.
\<close>

type_synonym byte = "8 word"

type_synonym word32 = "32 word"

type_synonym sha_state =
  "word32 \<times> word32 \<times> word32 \<times> word32 \<times> word32 \<times> word32 \<times> word32 \<times> word32"

text \<open>
  The round constants are the first 32 bits of the fractional parts of the cube roots of
  the first 64 primes, the initial state those of the square roots of the first 8 primes.
\<close>

definition K256 :: "word32 list" where
  "K256 =
    [1116352408, 1899447441, 3049323471, 3921009573, 961987163, 1508970993,
     2453635748, 2870763221, 3624381080, 310598401, 607225278, 1426881987,
     1925078388, 2162078206, 2614888103, 3248222580, 3835390401, 4022224774,
     264347078, 604807628, 770255983, 1249150122, 1555081692, 1996064986,
     2554220882, 2821834349, 2952996808, 3210313671, 3336571891, 3584528711,
     113926993, 338241895, 666307205, 773529912, 1294757372, 1396182291,
     1695183700, 1986661051, 2177026350, 2456956037, 2730485921, 2820302411,
     3259730800, 3345764771, 3516065817, 3600352804, 4094571909, 275423344,
     430227734, 506948616, 659060556, 883997877, 958139571, 1322822218,
     1537002063, 1747873779, 1955562222, 2024104815, 2227730452, 2361852424,
     2428436474, 2756734187, 3204031479, 3329325298]"

definition H256 :: sha_state where
  "H256 = (1779033703, 3144134277, 1013904242, 2773480762,
           1359893119, 2600822924, 528734635, 1541459225)"

definition rotr :: "nat \<Rightarrow> word32 \<Rightarrow> word32" where
  "rotr n x = drop_bit n x OR push_bit (32 - n) x"

definition Ch :: "word32 \<Rightarrow> word32 \<Rightarrow> word32 \<Rightarrow> word32" where
  "Ch x y z = (x AND y) XOR (NOT x AND z)"

definition Maj :: "word32 \<Rightarrow> word32 \<Rightarrow> word32 \<Rightarrow> word32" where
  "Maj x y z = (x AND y) XOR (x AND z) XOR (y AND z)"

definition Sigma0 :: "word32 \<Rightarrow> word32" where
  "Sigma0 x = rotr 2 x XOR rotr 13 x XOR rotr 22 x"

definition Sigma1 :: "word32 \<Rightarrow> word32" where
  "Sigma1 x = rotr 6 x XOR rotr 11 x XOR rotr 25 x"

definition sigma0 :: "word32 \<Rightarrow> word32" where
  "sigma0 x = rotr 7 x XOR rotr 18 x XOR drop_bit 3 x"

definition sigma1 :: "word32 \<Rightarrow> word32" where
  "sigma1 x = rotr 17 x XOR rotr 19 x XOR drop_bit 10 x"

text \<open>Padding: the byte \<open>0x80\<close>, zeros up to 56 modulo 64, the bit length in 8 bytes.\<close>

definition be64 :: "nat \<Rightarrow> byte list" where
  "be64 n = map (\<lambda>i. ucast (drop_bit (8 * i) (word_of_nat n :: 64 word))) [7, 6, 5, 4, 3, 2, 1, 0]"

definition sha_pad :: "byte list \<Rightarrow> byte list" where
  "sha_pad bs =
     bs @ [0x80] @ replicate ((64 - (length bs + 9) mod 64) mod 64) 0 @ be64 (8 * length bs)"

definition be32 :: "byte list \<Rightarrow> word32" where
  "be32 bs = fold (\<lambda>b w. push_bit 8 w OR ucast b) bs 0"

fun words_of :: "byte list \<Rightarrow> word32 list" where
  "words_of (a # b # c # d # bs) = be32 [a, b, c, d] # words_of bs"
| "words_of _ = []"

text \<open>The message schedule of a block: its 16 words, extended to 64.\<close>

definition schedule_step :: "nat \<Rightarrow> word32 list \<Rightarrow> word32 list" where
  "schedule_step t W =
     W @ [sigma1 (W ! (t - 2)) + W ! (t - 7) + sigma0 (W ! (t - 15)) + W ! (t - 16)]"

definition schedule :: "byte list \<Rightarrow> word32 list" where
  "schedule block = fold schedule_step [16..<64] (words_of block)"

definition sha_round :: "word32 \<times> word32 \<Rightarrow> sha_state \<Rightarrow> sha_state" where
  "sha_round kw s =
     (case s of (a, b, c, d, e, f, g, h) \<Rightarrow>
        let T1 = h + Sigma1 e + Ch e f g + fst kw + snd kw;
            T2 = Sigma0 a + Maj a b c
        in (T1 + T2, a, b, c, d + T1, e, f, g))"

definition compress :: "byte list \<Rightarrow> sha_state \<Rightarrow> sha_state" where
  "compress block s =
     (case (s, fold sha_round (zip K256 (schedule block)) s) of
        ((a, b, c, d, e, f, g, h), (a', b', c', d', e', f', g', h')) \<Rightarrow>
          (a + a', b + b', c + c', d + d', e + e', f + f', g + g', h + h'))"

fun blocks_of :: "nat \<Rightarrow> byte list \<Rightarrow> byte list list" where
  "blocks_of 0 bs = []"
| "blocks_of (Suc n) bs = take 64 bs # blocks_of n (drop 64 bs)"

definition sha256_of :: "byte list \<Rightarrow> sha_state" where
  "sha256_of bs = (let m = sha_pad bs in fold compress (blocks_of (length m div 64) m) H256)"

definition hex_digit :: "nat \<Rightarrow> char" where
  "hex_digit n = ''0123456789abcdef'' ! (n mod 16)"

definition hex32 :: "word32 \<Rightarrow> string" where
  "hex32 w = map (\<lambda>i. hex_digit (unat w div 16 ^ i)) [7, 6, 5, 4, 3, 2, 1, 0]"

definition sha256_new :: "byte list" where
  "sha256_new = []"

definition sha256_update :: "byte list \<Rightarrow> byte list \<Rightarrow> byte list" where
  "sha256_update h chunk = h @ chunk"

definition sha256_hexdigest :: "byte list \<Rightarrow> string" where
  "sha256_hexdigest h =
     (case sha256_of h of (a, b, c, d, e, f, g, h) \<Rightarrow>
        concat (map hex32 [a, b, c, d, e, f, g, h]))"

subsection \<open>Exceptions and the file system\<close>

text \<open>
  The exceptions the scanner distinguishes: \<^verbatim>\<open>ValueError\<close> with its message, \<^verbatim>\<open>OSError\<close>
  (with its subclasses such as \<^verbatim>\<open>PermissionError\<close>, which the handlers
  \<^verbatim>\<open>except (PermissionError, OSError)\<close> catch alike), and \<open>OtherError\<close> for any exception
  that is neither.
\<close>

datatype py_exception = ValueError string | OSError | OtherError

fun is_OSError :: "py_exception \<Rightarrow> bool" where
  "is_OSError OSError = True"
| "is_OSError _ = False"

text \<open>
  What the scanner can observe of a regular file: \<open>st_size\<close> is the size \<^verbatim>\<open>stat()\<close> reports
  (\<open>None\<close> when \<^verbatim>\<open>stat()\<close> raises \<^verbatim>\<open>OSError\<close>), \<open>open_fails\<close> says that \<^verbatim>\<open>open("rb")\<close> raises
  \<^verbatim>\<open>OSError\<close>, \<open>content\<close> are the bytes, and \<open>read_fault = Some k\<close> says that the call number
  \<open>k\<close> of \<^verbatim>\<open>f.read\<close> (counted from 0) raises \<^verbatim>\<open>OSError\<close>.
\<close>

record regular_file =
  st_size :: "nat option"
  open_fails :: bool
  content :: "byte list"
  read_fault :: "nat option"

text \<open>
  What a path refers to.  \<open>Directory\<close> lists its entries in the order \<^verbatim>\<open>iterdir()\<close> yields
  them; \<open>DeniedDirectory\<close> is a directory whose listing raises \<^verbatim>\<open>OSError\<close>; \<open>Special\<close> is
  neither a directory nor a regular file (a socket, a device, a broken link);
  \<open>Inaccessible\<close> is an entry for which \<^verbatim>\<open>stat\<close> is denied, so that \<^verbatim>\<open>exists()\<close>, \<^verbatim>\<open>is_dir()\<close>
  and \<^verbatim>\<open>is_file()\<close> raise (\<^verbatim>\<open>pathlib\<close> lets every error but a missing path through).
  A path that refers to nothing is \<open>None\<close>.  The tree is finite: a cycle of
  symbolic links is outside the model.
\<close>

datatype fsnode =
    Directory "(string \<times> fsnode) list"
  | DeniedDirectory
  | Regular regular_file
  | Special
  | Inaccessible

fun exists :: "fsnode option \<Rightarrow> py_exception + bool" where
  "exists None = Inr False"
| "exists (Some Inaccessible) = Inl OSError"
| "exists (Some _) = Inr True"

fun is_dir :: "fsnode option \<Rightarrow> py_exception + bool" where
  "is_dir (Some (Directory _)) = Inr True"
| "is_dir (Some DeniedDirectory) = Inr True"
| "is_dir (Some Inaccessible) = Inl OSError"
| "is_dir _ = Inr False"

fun is_file :: "fsnode option \<Rightarrow> py_exception + bool" where
  "is_file (Some (Regular _)) = Inr True"
| "is_file (Some Inaccessible) = Inl OSError"
| "is_file _ = Inr False"

subsection \<open>\<^verbatim>\<open>generate_file_hash\<close>\<close>

text \<open>
  The loop \<^verbatim>\<open>for chunk in iter(lambda: f.read(1024 * 1024), b""): sha256.update(chunk)\<close>:
  each call of \<^verbatim>\<open>f.read\<close> returns the next bytes, at most the chunk size, and the loop ends at
  the first empty chunk.  \<open>k\<close> counts the calls, \<open>rest\<close> are the bytes not yet read; the
  result is \<open>None\<close> when a call raises \<^verbatim>\<open>OSError\<close>.
\<close>

definition chunk_size :: nat where
  "chunk_size = 1024 * 1024"

function read_chunks :: "regular_file \<Rightarrow> nat \<Rightarrow> byte list \<Rightarrow> byte list \<Rightarrow> byte list option" where
  "read_chunks f k rest sha256 =
     (if read_fault f = Some k then None
      else if take chunk_size rest = [] then Some sha256
      else read_chunks f (Suc k) (drop chunk_size rest)
             (sha256_update sha256 (take chunk_size rest)))"
  by pat_completeness auto
termination
  by (relation "measure (\<lambda>(f, k, rest, sha256). length rest)") (auto simp: chunk_size_def)

declare read_chunks.simps [simp del]

text \<open>
  \<^verbatim>\<open>
    path = Path(file_path)
    if not path.is_file():
        return ""
    sha256 = hashlib.sha256()
    try:
        with path.open("rb") as f:
            for chunk in iter(lambda: f.read(1024 * 1024), b""):
                sha256.update(chunk)
    except (OSError, IOError):
        return ""
    return sha256.hexdigest()
  \<close>
  The argument is what the path refers to.  \<^verbatim>\<open>is_file()\<close> is called outside the \<^verbatim>\<open>try\<close>, so
  its exception leaves the function.
\<close>

definition generate_file_hash :: "fsnode option \<Rightarrow> py_exception + string" where
  "generate_file_hash node =
     (case is_file node of
        Inl e \<Rightarrow> Inl e
      | Inr False \<Rightarrow> Inr []
      | Inr True \<Rightarrow>
          (case node of
             Some (Regular f) \<Rightarrow>
               (if open_fails f then Inr []
                else case read_chunks f 0 (content f) sha256_new of
                       None \<Rightarrow> Inr []
                     | Some sha256 \<Rightarrow> Inr (sha256_hexdigest sha256))
           | _ \<Rightarrow> Inr []))"

section \<open>Traversal engine: \<^verbatim>\<open>scanner/scanner.py\<close>\<close>

subsection \<open>Paths\<close>

text \<open>
  A \<^verbatim>\<open>pathlib\<close> path (POSIX flavour) is its root and its components below the root.  The
  root is empty for a relative path, \<^verbatim>\<open>/\<close>, or \<^verbatim>\<open>//\<close> for a string that begins with exactly two
  slashes.  \<open>Path\<close> parses a string as \<^verbatim>\<open>Path(directory_path)\<close> does: it splits at \<^verbatim>\<open>/\<close> and
  drops empty components and \<^verbatim>\<open>.\<close>.  \<open>child\<close> is the path \<^verbatim>\<open>iterdir()\<close> yields for an entry,
  \<open>path_str\<close> is \<^verbatim>\<open>str(path)\<close>, \<open>path_name\<close> is \<^verbatim>\<open>path.name\<close>, and \<open>absolute cwd\<close> is
  \<^verbatim>\<open>path.absolute()\<close> when the components of the working directory are \<open>cwd\<close>.
\<close>

datatype anchor = Relative | Slash | DoubleSlash

datatype pypath = PosixPath (anchor: anchor) (names: "string list")

definition is_absolute :: "pypath \<Rightarrow> bool" where
  "is_absolute p = (anchor p \<noteq> Relative)"

fun anchor_str :: "anchor \<Rightarrow> string" where
  "anchor_str Relative = []"
| "anchor_str Slash = ''/''"
| "anchor_str DoubleSlash = ''//''"

fun split_slash :: "string \<Rightarrow> string list" where
  "split_slash [] = [[]]"
| "split_slash (c # cs) =
     (if c = CHR ''/'' then [] # split_slash cs
      else case split_slash cs of [] \<Rightarrow> [[c]] | w # ws \<Rightarrow> (c # w) # ws)"

definition Path :: "string \<Rightarrow> pypath" where
  "Path s =
     PosixPath (if take 2 s = ''//'' \<and> take 3 s \<noteq> ''///'' then DoubleSlash
                else if take 1 s = ''/'' then Slash else Relative)
               (filter (\<lambda>w. w \<noteq> [] \<and> w \<noteq> ''.'') (split_slash s))"

fun join_slash :: "string list \<Rightarrow> string" where
  "join_slash [] = []"
| "join_slash [w] = w"
| "join_slash (w # ws) = w @ ''/'' @ join_slash ws"

definition path_str :: "pypath \<Rightarrow> string" where
  "path_str p =
     (if is_absolute p then anchor_str (anchor p) @ join_slash (names p)
      else if names p = [] then ''.'' else join_slash (names p))"

definition child :: "pypath \<Rightarrow> string \<Rightarrow> pypath" where
  "child p n = PosixPath (anchor p) (names p @ [n])"

definition path_name :: "pypath \<Rightarrow> string" where
  "path_name p = (if names p = [] then [] else last (names p))"

definition absolute :: "string list \<Rightarrow> pypath \<Rightarrow> pypath" where
  "absolute cwd p = (if is_absolute p then p else PosixPath Slash (cwd @ names p))"

subsection \<open>The scanner object and the progress sink\<close>

text \<open>
  \<open>scanned_files\<close> is the attribute of \<^verbatim>\<open>FileScanner\<close>.  A progress sink is a Python callable:
  called with a message it may change a state of its own (\<open>sink_state\<close>: a console, a status
  record), it may read the scanner (the sink of the web interface reads the file count),
  and it may raise an exception instead of returning.  A sink that writes to the
  scanner or to the file system is outside the model.
\<close>

record 's scanner =
  scanned_files :: "file_info list"
  sink_state :: 's

type_synonym 's sink = "string \<Rightarrow> file_info list \<Rightarrow> 's \<Rightarrow> py_exception option \<times> 's"

text \<open>\<^verbatim>\<open>if progress_callback: progress_callback(message)\<close>\<close>

definition notify ::
  "'s sink option \<Rightarrow> string \<Rightarrow> 's scanner \<Rightarrow> (py_exception + unit) \<times> 's scanner" where
  "notify progress_callback message st =
     (case progress_callback of
        None \<Rightarrow> (Inr (), st)
      | Some callback \<Rightarrow>
          (case callback message (scanned_files st) (sink_state st) of
             (None, s) \<Rightarrow> (Inr (), st\<lparr>sink_state := s\<rparr>)
           | (Some e, s) \<Rightarrow> (Inl e, st\<lparr>sink_state := s\<rparr>)))"

text \<open>The decimal digits of a length, as an f-string prints it.\<close>

function str_nat :: "nat \<Rightarrow> string" where
  "str_nat n =
     (if n < 10 then [''0123456789'' ! n]
      else str_nat (n div 10) @ [''0123456789'' ! (n mod 10)])"
  by pat_completeness auto
termination
  by (relation "measure id") auto

declare str_nat.simps [simp del]

subsection \<open>\<^verbatim>\<open>_collect_file_info\<close>\<close>

text \<open>
  \<^verbatim>\<open>
    try:
        file_stats = file_path.stat()
        file_hash = generate_file_hash(str(file_path))
        if not file_hash:
            return None
        return {"path": str(file_path.absolute()), "size": file_stats.st_size,
                "name": file_path.name, "hash": file_hash}
    except (OSError, PermissionError):
        return None
  \<close>
  \<open>node\<close> is what \<open>file_path\<close> refers to.  The size \<^verbatim>\<open>stat()\<close> reports for a node that is not
  a regular file is not modelled (0 stands for it): no record is built from it, since
  \<open>generate_file_hash\<close> returns the empty string for such a node.
\<close>

fun node_stat :: "fsnode \<Rightarrow> py_exception + nat" where
  "node_stat (Regular f) = (case st_size f of None \<Rightarrow> Inl OSError | Some n \<Rightarrow> Inr n)"
| "node_stat Inaccessible = Inl OSError"
| "node_stat _ = Inr 0"

definition collect_file_info :: "string list \<Rightarrow> pypath \<Rightarrow> fsnode \<Rightarrow> file_info option" where
  "collect_file_info cwd file_path node =
     (case node_stat node of
        Inl e \<Rightarrow> None
      | Inr file_size \<Rightarrow>
          (case generate_file_hash (Some node) of
             Inl e \<Rightarrow> None
           | Inr file_hash \<Rightarrow>
               if file_hash = [] then None
               else Some \<lparr>path = Some (path_str (absolute cwd file_path)),
                          size' = Some (int file_size),
                          name = Some (path_name file_path),
                          hash = Some file_hash\<rparr>))"

subsection \<open>\<^verbatim>\<open>_scan_recursive\<close>\<close>

text \<open>
  The branch for a regular file, inside the inner \<^verbatim>\<open>try\<close>:
  \<^verbatim>\<open>
    if progress_callback:
        progress_callback(f"Scanning: {item}")
    file_info = self._collect_file_info(item)
    if file_info is not None:
        self.scanned_files.append(file_info)
    # Report progress every 100 files
    if progress_callback and len(self.scanned_files) % 100 == 0:
        progress_callback(f"Files found: {len(self.scanned_files)}")
  \<close>
\<close>

definition scan_file ::
  "'s sink option \<Rightarrow> string list \<Rightarrow> pypath \<Rightarrow> fsnode \<Rightarrow> 's scanner
     \<Rightarrow> (py_exception + unit) \<times> 's scanner" where
  "scan_file progress_callback cwd item node st =
     (case notify progress_callback (''Scanning: '' @ path_str item) st of
        (Inl e, st1) \<Rightarrow> (Inl e, st1)
      | (Inr u, st1) \<Rightarrow>
          let st2 = (case collect_file_info cwd item node of
                       None \<Rightarrow> st1
                     | Some file_info \<Rightarrow> st1\<lparr>scanned_files := scanned_files st1 @ [file_info]\<rparr>)
          in if progress_callback \<noteq> None \<and> length (scanned_files st2) mod 100 = 0
             then notify progress_callback
                    (''Files found: '' @ str_nat (length (scanned_files st2))) st2
             else (Inr (), st2))"

text \<open>
  \<^verbatim>\<open>
    try:
        for item in path.iterdir():
            try:
                if item.is_dir():
                    self._scan_recursive(item, progress_callback)
                elif item.is_file():
                    ...
            except (PermissionError, OSError) as e:
                if progress_callback:
                    progress_callback(f"Skipped (no permission): {item}")
                continue
    except (PermissionError, OSError) as e:
        if progress_callback:
            progress_callback(f"Skipped directory (no permission): {path}")
  \<close>
  \<open>scan_recursive\<close> is the method, applied to a path and what it refers to; \<open>scan_items\<close> is
  its \<^verbatim>\<open>for\<close> loop over the entries not yet visited (\<open>path'\<close> is the parameter \<^verbatim>\<open>path\<close>).
  The result is \<open>Inl e\<close> when the exception \<open>e\<close> leaves the method; the scanner is returned
  in either case, since what was appended before an exception stays appended.  An exception raised inside the inner handler
  reaches the outer \<^verbatim>\<open>try\<close>.  \<^verbatim>\<open>iterdir()\<close> raises \<^verbatim>\<open>OSError\<close> for everything but a directory that
  can be listed.
\<close>

fun scan_recursive ::
  "'s sink option \<Rightarrow> string list \<Rightarrow> pypath \<Rightarrow> fsnode \<Rightarrow> 's scanner
     \<Rightarrow> (py_exception + unit) \<times> 's scanner"
and scan_items ::
  "'s sink option \<Rightarrow> string list \<Rightarrow> pypath \<Rightarrow> (string \<times> fsnode) list \<Rightarrow> 's scanner
     \<Rightarrow> (py_exception + unit) \<times> 's scanner" where
  "scan_recursive progress_callback cwd path' (Directory entries) st =
     (case scan_items progress_callback cwd path' entries st of
        (Inl e, st') \<Rightarrow>
          if is_OSError e
          then notify progress_callback
                 (''Skipped directory (no permission): '' @ path_str path') st'
          else (Inl e, st')
      | (Inr u, st') \<Rightarrow> (Inr u, st'))"
| "scan_recursive progress_callback cwd path' DeniedDirectory st =
     notify progress_callback (''Skipped directory (no permission): '' @ path_str path') st"
| "scan_recursive progress_callback cwd path' (Regular f) st =
     notify progress_callback (''Skipped directory (no permission): '' @ path_str path') st"
| "scan_recursive progress_callback cwd path' Special st =
     notify progress_callback (''Skipped directory (no permission): '' @ path_str path') st"
| "scan_recursive progress_callback cwd path' Inaccessible st =
     notify progress_callback (''Skipped directory (no permission): '' @ path_str path') st"
| "scan_items progress_callback cwd path' [] st = (Inr (), st)"
| "scan_items progress_callback cwd path' ((entry, node) # rest) st =
     (case (case is_dir (Some node) of
              Inl e \<Rightarrow> (Inl e, st)
            | Inr True \<Rightarrow> scan_recursive progress_callback cwd (child path' entry) node st
            | Inr False \<Rightarrow>
                (case is_file (Some node) of
                   Inl e \<Rightarrow> (Inl e, st)
                 | Inr True \<Rightarrow> scan_file progress_callback cwd (child path' entry) node st
                 | Inr False \<Rightarrow> (Inr (), st))) of
        (Inl e, st1) \<Rightarrow>
          if is_OSError e
          then (case notify progress_callback
                       (''Skipped (no permission): '' @ path_str (child path' entry)) st1 of
                  (Inl e', st2) \<Rightarrow> (Inl e', st2)
                | (Inr u, st2) \<Rightarrow> scan_items progress_callback cwd path' rest st2)
          else (Inl e, st1)
      | (Inr u, st1) \<Rightarrow> scan_items progress_callback cwd path' rest st1)"

subsection \<open>\<^verbatim>\<open>scan_directory\<close>\<close>

text \<open>
  \<^verbatim>\<open>
    self.scanned_files = []
    path = Path(directory_path)
    if not path.exists():
        raise ValueError(f"Directory does not exist: {directory_path}")
    if not path.is_dir():
        raise ValueError(f"Path is not a directory: {directory_path}")
    if progress_callback:
        progress_callback("Starting scan...")
    self._scan_recursive(path, progress_callback)
    if progress_callback:
        progress_callback(f"Scan complete! Found {len(self.scanned_files)} files.")
    return self.scanned_files
  \<close>
  \<open>root\<close> is what \<open>directory_path\<close> refers to.  The result is the returned list, or the
  exception raised, together with the scanner and the sink after the call.
\<close>

definition scan_directory ::
  "'s sink option \<Rightarrow> string list \<Rightarrow> string \<Rightarrow> fsnode option \<Rightarrow> 's scanner
     \<Rightarrow> (py_exception + file_info list) \<times> 's scanner" where
  "scan_directory progress_callback cwd directory_path root st0 =
     (let st = st0\<lparr>scanned_files := []\<rparr>; path = Path directory_path in
      case exists root of
        Inl e \<Rightarrow> (Inl e, st)
      | Inr False \<Rightarrow> (Inl (ValueError (''Directory does not exist: '' @ directory_path)), st)
      | Inr True \<Rightarrow>
          (case is_dir root of
             Inl e \<Rightarrow> (Inl e, st)
           | Inr False \<Rightarrow> (Inl (ValueError (''Path is not a directory: '' @ directory_path)), st)
           | Inr True \<Rightarrow>
               (case notify progress_callback ''Starting scan...'' st of
                  (Inl e, st1) \<Rightarrow> (Inl e, st1)
                | (Inr u, st1) \<Rightarrow>
                    (case scan_recursive progress_callback cwd path (the root) st1 of
                       (Inl e, st2) \<Rightarrow> (Inl e, st2)
                     | (Inr u, st2) \<Rightarrow>
                         (case notify progress_callback
                                 (''Scan complete! Found ''
                                   @ str_nat (length (scanned_files st2)) @ '' files.'') st2 of
                            (Inl e, st3) \<Rightarrow> (Inl e, st3)
                          | (Inr u, st3) \<Rightarrow> (Inr (scanned_files st3), st3))))))"

section \<open>Command line: \<^verbatim>\<open>cli/scan.py\<close>\<close>

text \<open>
  \<open>print_progress\<close> prints a line; its state is the console, and printing is taken to
  succeed (a console that cannot be written to is a sink that raises).  Of \<^verbatim>\<open>main\<close> the model keeps
  the exit status and the index file: the scan runs inside \<^verbatim>\<open>try\<close>, \<^verbatim>\<open>save_index_to_json\<close> is
  called only after \<^verbatim>\<open>scan_directory\<close> has returned, and both handlers (\<^verbatim>\<open>except ValueError\<close>,
  \<^verbatim>\<open>except Exception\<close>) end with \<^verbatim>\<open>sys.exit(1)\<close>.  The index file holds the list under its key
  \<^verbatim>\<open>"files"\<close> (and its length); \<open>None\<close> is a missing file.  Writing is taken to succeed.
\<close>

definition print_progress :: "string list sink" where
  "print_progress message scanned console = (None, console @ [''[INFO] '' @ message])"


section \<open>Notions used in the statements and proofs\<close>

subsection \<open>Analyzer\<close>

text \<open>
  \<open>first_seen\<close> keeps the first occurrence of every element.  \<open>grouped\<close> are the records
  \<open>find_duplicates\<close> does not skip, \<open>hashed\<close> those \<open>calculate_wasted_space\<close> does not skip;
  \<open>paths_with h\<close> are the paths grouped under the digest \<open>h\<close>, \<open>seen_hashes\<close> and \<open>digests\<close>
  the keys of the two dicts in insertion order, \<open>members h\<close> the records with digest \<open>h\<close>
  and \<open>first_size h\<close> the size of the first of them (0 when its \<^verbatim>\<open>"size"\<close> is missing).
  \<open>scenario\<close> is the example of the specification; \<open>pathless\<close> has a record with an
  empty path.
\<close>

definition first_seen :: "'a list \<Rightarrow> 'a list" where
  "first_seen xs = rev (remdups (rev xs))"

definition grouped :: "file_info \<Rightarrow> bool" where
  "grouped r = (\<not> py_not (hash r) \<and> \<not> py_not (path r))"

definition paths_with :: "string \<Rightarrow> file_info list \<Rightarrow> string list" where
  "paths_with h rs = map (\<lambda>r. the (path r)) (filter (\<lambda>r. grouped r \<and> hash r = Some h) rs)"

definition seen_hashes :: "file_info list \<Rightarrow> string list" where
  "seen_hashes rs = first_seen (map (\<lambda>r. the (hash r)) (filter grouped rs))"

definition scenario :: "file_info list" where
  "scenario =
     [\<lparr>path = Some ''/a/1.txt'', size' = Some 100, name = Some ''1.txt'', hash = Some ''H1''\<rparr>,
      \<lparr>path = Some ''/b/2.txt'', size' = Some 100, name = Some ''2.txt'', hash = Some ''H1''\<rparr>,
      \<lparr>path = Some ''/c/3.txt'', size' = Some 200, name = Some ''3.txt'', hash = Some ''H2''\<rparr>]"

definition hashed :: "file_info \<Rightarrow> bool" where
  "hashed r = (\<not> py_not (hash r))"

definition digests :: "file_info list \<Rightarrow> string list" where
  "digests rs = first_seen (map (\<lambda>r. the (hash r)) (filter hashed rs))"

definition members :: "string \<Rightarrow> file_info list \<Rightarrow> file_info list" where
  "members h rs = filter (\<lambda>r. hash r = Some h) rs"

definition size_or_0 :: "file_info \<Rightarrow> int" where
  "size_or_0 r = (case size' r of None \<Rightarrow> 0 | Some s \<Rightarrow> s)"

definition first_size :: "string \<Rightarrow> file_info list \<Rightarrow> int" where
  "first_size h rs = (case members h rs of [] \<Rightarrow> 0 | r # _ \<Rightarrow> size_or_0 r)"

definition pathless :: "file_info list" where
  "pathless =
     [\<lparr>path = Some [], size' = Some 10, name = Some ''1.txt'', hash = Some ''H1''\<rparr>,
      \<lparr>path = Some ''/b/2.txt'', size' = Some 10, name = Some ''2.txt'', hash = Some ''H1''\<rparr>]"

subsection \<open>Digest computation and traversal\<close>

text \<open>
  \<open>read_calls n\<close> is the number of calls of \<^verbatim>\<open>f.read\<close> the loop makes on a file of \<open>n\<close> bytes,
  and \<open>read_error\<close> says that opening the file or one of these calls fails.  \<open>sink_returns\<close>
  holds of an absent sink and of a sink that never raises.  \<open>walk\<close> lists the entries
  below a directory with their paths, in the order of the traversal; \<open>file_records\<close> is the
  record of an entry, if it is a regular file for which \<open>collect_file_info\<close> yields one, and
  \<open>tree_records\<close> are the records of a whole tree.  \<open>unreadable\<close> are the entries the traversal
  skips: a directory whose listing raises, an entry whose \<^verbatim>\<open>is_dir()\<close> raises, and a regular
  file whose \<^verbatim>\<open>stat\<close>, opening or read fails.  \<open>recorder\<close> is a sink that appends each message
  it receives to a list, so that the list after a scan holds the messages the scan sent.
  The remaining definitions are the examples at which the theorems are evaluated: files
  with the bytes \<^verbatim>\<open>abc\<close> (one with a failing read, one that cannot be opened), directories,
  scanners before a scan, and sinks that raise.
\<close>

definition read_calls :: "nat \<Rightarrow> nat" where
  "read_calls n = (n + chunk_size - 1) div chunk_size + 1"

definition read_error :: "regular_file \<Rightarrow> bool" where
  "read_error f =
     (open_fails f \<or> (case read_fault f of None \<Rightarrow> False
                       | Some k \<Rightarrow> k < read_calls (length (content f))))"

definition hex_chars :: "char set" where
  "hex_chars = set ''0123456789abcdef''"

definition abc_file :: regular_file where
  "abc_file = \<lparr>st_size = Some 3, open_fails = False, content = [0x61, 0x62, 0x63], read_fault = None\<rparr>"

definition abc_copy :: regular_file where
  "abc_copy = \<lparr>st_size = Some 3, open_fails = False, content = [0x61, 0x62, 0x63], read_fault = Some 2\<rparr>"

definition faulty_file :: regular_file where
  "faulty_file = \<lparr>st_size = Some 3, open_fails = False, content = [0x61, 0x62, 0x63], read_fault = Some 1\<rparr>"

definition sink_returns :: "'s sink option \<Rightarrow> bool" where
  "sink_returns progress_callback =
     (case progress_callback of
        None \<Rightarrow> True
      | Some callback \<Rightarrow> \<forall>message scanned s. fst (callback message scanned s) = None)"

fun walk :: "pypath \<Rightarrow> fsnode \<Rightarrow> (pypath \<times> fsnode) list"
and walk_items :: "pypath \<Rightarrow> (string \<times> fsnode) list \<Rightarrow> (pypath \<times> fsnode) list" where
  "walk p (Directory entries) = walk_items p entries"
| "walk p DeniedDirectory = []"
| "walk p (Regular f) = []"
| "walk p Special = []"
| "walk p Inaccessible = []"
| "walk_items p [] = []"
| "walk_items p ((entry, node) # rest) =
     (child p entry, node) # walk (child p entry) node @ walk_items p rest"

fun file_records :: "string list \<Rightarrow> pypath \<times> fsnode \<Rightarrow> file_info list" where
  "file_records cwd (item, Regular f) =
     (case collect_file_info cwd item (Regular f) of None \<Rightarrow> [] | Some file_info \<Rightarrow> [file_info])"
| "file_records cwd (item, _) = []"

definition tree_records :: "string list \<Rightarrow> pypath \<Rightarrow> fsnode \<Rightarrow> file_info list" where
  "tree_records cwd p node = concat (map (file_records cwd) (walk p node))"

definition items_records :: "string list \<Rightarrow> pypath \<Rightarrow> (string \<times> fsnode) list \<Rightarrow> file_info list" where
  "items_records cwd p entries = concat (map (file_records cwd) (walk_items p entries))"

definition locked_tree :: fsnode where
  "locked_tree = Directory [(''locked'', DeniedDirectory), (''a.txt'', Regular abc_file)]"

definition abc_record :: file_info where
  "abc_record = \<lparr>path = Some ''/data/a.txt'', size' = Some 3, name = Some ''a.txt'',
                   hash = Some (sha256_hexdigest [0x61, 0x62, 0x63])\<rparr>"

definition idle :: "unit scanner" where
  "idle = \<lparr>scanned_files = [], sink_state = ()\<rparr>"

definition console :: "string list scanner" where
  "console = \<lparr>scanned_files = [], sink_state = []\<rparr>"

definition recorder :: "string list sink" where
  "recorder message scanned log = (None, log @ [message])"

definition empty_log :: "string list scanner" where
  "empty_log = \<lparr>scanned_files = [], sink_state = []\<rparr>"

definition broken_pipe :: "unit sink" where
  "broken_pipe message scanned s = (Some OSError, s)"

definition no_scanning :: "unit sink" where
  "no_scanning message scanned s =
     (if take 10 message = ''Scanning: '' then (Some OSError, s) else (None, s))"

definition faulty_tree :: fsnode where
  "faulty_tree = Directory [(''a.txt'', Regular faulty_file)]"






section \<open>Properties of the duplicate analyzer\<close>

subsection \<open>The dict built by \<^verbatim>\<open>find_duplicates\<close>\<close>

lemma first_seen_snoc:
  "first_seen (xs @ [x]) = (if x \<in> set xs then first_seen xs else first_seen xs @ [x])"
  by (simp add: first_seen_def)

lemma set_first_seen [simp]: "set (first_seen xs) = set xs"
  by (simp add: first_seen_def)

lemma distinct_first_seen [simp]: "distinct (first_seen xs)"
  by (simp add: first_seen_def)

lemma update_tabulate:
  "k \<notin> set ks \<Longrightarrow> AList.update k v (map (\<lambda>h. (h, f h)) ks) = map (\<lambda>h. (h, f h)) ks @ [(k, v)]"
  by (induction ks) auto

lemma map_entry_tabulate:
  "distinct ks \<Longrightarrow>
   AList.map_entry k g (map (\<lambda>h. (h, f h)) ks) = map (\<lambda>h. (h, if h = k then g (f h) else f h)) ks"
  by (induction ks) auto

lemma map_entry_snoc:
  "k \<notin> fst ` set al \<Longrightarrow> AList.map_entry k g (al @ [(k, v)]) = al @ [(k, g v)]"
  by (induction al) auto

lemma hash_groups_of_snoc: "hash_groups_of (rs @ [r]) = group_step r (hash_groups_of rs)"
  by (simp add: hash_groups_of_def)

lemma hash_groups_of_eq:
  "hash_groups_of rs = map (\<lambda>h. (h, paths_with h rs)) (seen_hashes rs)"
proof (induction rs rule: rev_induct)
  case Nil
  show ?case by (simp add: hash_groups_of_def seen_hashes_def first_seen_def)
next
  case (snoc r rs)
  show ?case
  proof (cases "grouped r")
    case False
    then have "group_step r (hash_groups_of rs) = hash_groups_of rs"
      by (auto simp: group_step_def grouped_def Let_def)
    moreover from False have "seen_hashes (rs @ [r]) = seen_hashes rs"
      by (simp add: seen_hashes_def)
    moreover from False have "\<And>h. paths_with h (rs @ [r]) = paths_with h rs"
      by (simp add: paths_with_def)
    ultimately show ?thesis using snoc by (simp add: hash_groups_of_snoc)
  next
    case True
    then obtain h p where h: "hash r = Some h" and p: "path r = Some p"
      by (cases "hash r"; cases "path r") (auto simp: grouped_def)
    have pw: "\<And>k. paths_with k (rs @ [r]) = (if k = h then paths_with k rs @ [p] else paths_with k rs)"
      using True h p by (auto simp: paths_with_def)
    have keys: "fst ` set (hash_groups_of rs) = set (seen_hashes rs)"
      by (simp add: snoc image_image)
    show ?thesis
    proof (cases "h \<in> set (seen_hashes rs)")
      case in_keys: True
      have sh: "seen_hashes (rs @ [r]) = seen_hashes rs"
        using True h in_keys by (simp add: seen_hashes_def first_seen_snoc)
      have "group_step r (hash_groups_of rs)
            = AList.map_entry h (\<lambda>paths. paths @ [p]) (hash_groups_of rs)"
        using True h p in_keys keys by (simp add: group_step_def grouped_def Let_def)
      also have "\<dots> = map (\<lambda>k. (k, if k = h then paths_with k rs @ [p] else paths_with k rs)) (seen_hashes rs)"
        by (simp add: snoc map_entry_tabulate seen_hashes_def)
      finally show ?thesis by (simp add: hash_groups_of_snoc sh pw)
    next
      case not_in_keys: False
      have sh: "seen_hashes (rs @ [r]) = seen_hashes rs @ [h]"
        using True h not_in_keys by (simp add: seen_hashes_def first_seen_snoc)
      have none: "paths_with h rs = []"
        using not_in_keys by (auto simp: paths_with_def seen_hashes_def filter_empty_conv image_iff)
      have "group_step r (hash_groups_of rs)
            = AList.map_entry h (\<lambda>paths. paths @ [p]) (AList.update h [] (hash_groups_of rs))"
        using True h p not_in_keys keys by (simp add: group_step_def grouped_def Let_def)
      also have "\<dots> = hash_groups_of rs @ [(h, [p])]"
        using not_in_keys keys by (simp add: snoc update_tabulate map_entry_snoc image_image)
      finally show ?thesis using not_in_keys by (auto simp add: hash_groups_of_snoc sh pw none snoc)
    qed
  qed
qed

lemma find_duplicates_eq:
  "find_duplicates rs =
     filter (\<lambda>paths. length paths > 1) (map (\<lambda>h. paths_with h rs) (seen_hashes rs))"
  by (simp add: find_duplicates_def hash_groups_of_eq comp_def)

lemma seen_hashes_nonempty:
  assumes "h \<in> set (seen_hashes rs)"
  shows "h \<noteq> []"
proof -
  from assms obtain r where "grouped r" and "h = the (hash r)"
    by (auto simp: seen_hashes_def)
  then show ?thesis by (cases "hash r") (auto simp: grouped_def)
qed

lemma paths_with_filter_grouped: "paths_with h (filter grouped rs) = paths_with h rs"
  by (simp add: paths_with_def conj_commute cong: conj_cong)

lemma seen_hashes_filter_grouped: "seen_hashes (filter grouped rs) = seen_hashes rs"
  by (simp add: seen_hashes_def)

lemma paths_with_unfold:
  "h \<noteq> [] \<Longrightarrow> paths_with h rs =
     map (\<lambda>r. the (path r)) (filter (\<lambda>r. hash r = Some h \<and> \<not> py_not (path r)) rs)"
  unfolding paths_with_def grouped_def
  by (rule arg_cong [where f = "map _"], rule filter_cong) auto

text \<open>
  Claim C1.  Every group returned by \<open>find_duplicates\<close> has at least two members and
  belongs to one non-empty digest \<open>h\<close>: the group is, in input order, the list of the paths
  of exactly those records whose \<^verbatim>\<open>"hash"\<close> is \<open>h\<close> and whose \<^verbatim>\<open>"path"\<close> is neither missing nor
  empty, so all its members carry the same digest.  Records whose digest or path is
  missing or empty are skipped: deleting them from the input leaves the result unchanged.
\<close>

theorem find_duplicates_groups:
  assumes "g \<in> set (find_duplicates file_metadata)"
  shows "2 \<le> length g
     \<and> (\<exists>h. h \<noteq> [] \<and>
           g = map (\<lambda>r. the (path r))
                 (filter (\<lambda>r. hash r = Some h \<and> \<not> py_not (path r)) file_metadata))
     \<and> find_duplicates file_metadata =
         find_duplicates (filter (\<lambda>r. \<not> py_not (hash r) \<and> \<not> py_not (path r)) file_metadata)"
proof -
  from assms obtain h where h: "h \<in> set (seen_hashes file_metadata)"
    and g: "g = paths_with h file_metadata" and len: "1 < length g"
    by (auto simp: find_duplicates_eq)
  have "h \<noteq> []" using h by (rule seen_hashes_nonempty)
  then have ex: "\<exists>h. h \<noteq> [] \<and>
           g = map (\<lambda>r. the (path r))
                 (filter (\<lambda>r. hash r = Some h \<and> \<not> py_not (path r)) file_metadata)"
    using g paths_with_unfold by blast
  have "find_duplicates file_metadata = find_duplicates (filter grouped file_metadata)"
    by (simp add: find_duplicates_eq paths_with_filter_grouped seen_hashes_filter_grouped)
  then have "find_duplicates file_metadata =
         find_duplicates (filter (\<lambda>r. \<not> py_not (hash r) \<and> \<not> py_not (path r)) file_metadata)"
    by (simp add: grouped_def [abs_def])
  with len ex show ?thesis by simp
qed

lemma scenario_groups: "find_duplicates scenario = [[''/a/1.txt'', ''/b/2.txt'']]"
  by (simp add: scenario_def find_duplicates_def hash_groups_of_def group_step_def)

lemma scenario_wasted: "calculate_wasted_space scenario = 100"
  by (simp add: scenario_def calculate_wasted_space_def size_groups_of_def wasted_step_def wasted_add_def)

text \<open>The theorem at the three records of the specification's scenario.\<close>

theorem find_duplicates_groups_witness:
  "[''/a/1.txt'', ''/b/2.txt''] \<in> set (find_duplicates scenario)
   \<and> 2 \<le> length [''/a/1.txt'', ''/b/2.txt'']
   \<and> (\<exists>h. h \<noteq> [] \<and>
         [''/a/1.txt'', ''/b/2.txt''] = map (\<lambda>r. the (path r))
                 (filter (\<lambda>r. hash r = Some h \<and> \<not> py_not (path r)) scenario))"
proof -
  have m: "[''/a/1.txt'', ''/b/2.txt''] \<in> set (find_duplicates scenario)"
    by (simp add: scenario_groups)
  from find_duplicates_groups [OF m] m show ?thesis by blast
qed

subsection \<open>\<^verbatim>\<open>count_duplicates\<close>\<close>

text \<open>
  Claim C7.  \<open>count_duplicates\<close> returns as \<^verbatim>\<open>"groups"\<close> the number of groups of
  \<open>find_duplicates\<close> and as \<^verbatim>\<open>"files"\<close> the sum of their lengths: every member of a group
  is counted, also the copy that would be kept, so \<^verbatim>\<open>"files"\<close> is at least twice
  \<^verbatim>\<open>"groups"\<close>.  On the three records of the scenario \<open>find_duplicates\<close> returns the one
  group of \<^verbatim>\<open>/a/1.txt\<close> and \<^verbatim>\<open>/b/2.txt\<close>, \<open>count_duplicates\<close> returns one group and two files,
  and \<open>calculate_wasted_space\<close> returns 100.
\<close>

theorem count_duplicates_counts:
  "groups (count_duplicates file_metadata) = int (length (find_duplicates file_metadata))
   \<and> files (count_duplicates file_metadata)
        = (\<Sum>group\<leftarrow>find_duplicates file_metadata. int (length group))
   \<and> 2 * groups (count_duplicates file_metadata) \<le> files (count_duplicates file_metadata)
   \<and> find_duplicates scenario = [[''/a/1.txt'', ''/b/2.txt'']]
   \<and> count_duplicates scenario = \<lparr>groups = 1, files = 2\<rparr>
   \<and> calculate_wasted_space scenario = 100"
proof -
  have "2 * int (length gs) \<le> (\<Sum>g\<leftarrow>filter (\<lambda>paths. length paths > 1) gs. int (length g)) + 2 * int (length gs) - 2 * int (length (filter (\<lambda>paths. length paths > 1) gs))" for gs :: "string list list"
    by (induction gs) auto
  have ge: "2 * int (length gs) \<le> (\<Sum>g\<leftarrow>gs. int (length g))" if "\<forall>g\<in>set gs. 1 < length g" for gs :: "string list list"
    using that by (induction gs) auto
  have "2 * int (length (find_duplicates file_metadata)) \<le> (\<Sum>g\<leftarrow>find_duplicates file_metadata. int (length g))"
    by (rule ge) (simp add: find_duplicates_def)
  then show ?thesis
    by (simp add: count_duplicates_def Let_def scenario_groups scenario_wasted)
qed

lemma py_not_iff: "py_not x \<longleftrightarrow> x = None \<or> x = Some []"
  by (cases x) auto

lemma distinct_count_list_le_1: "distinct xs \<Longrightarrow> count_list xs y \<le> 1"
  by (induction xs) (auto simp: count_list_0_iff)

lemma count_list_map_filter: "count_list (map f xs) y = length (filter (\<lambda>x. f x = y) xs)"
  by (induction xs) auto

subsection \<open>Groups are lists with multiplicity\<close>

text \<open>
  Claim C10.  A group has one entry per matching record, not per distinct path: when the
  input holds two records with the same non-empty path \<open>p\<close> and the same non-empty hash
  \<open>h\<close>, some returned group contains \<open>p\<close> as often as the input has records with that path
  and hash, hence at least twice, and is not a list of distinct paths.
\<close>

theorem find_duplicates_multiplicity:
  assumes "file_metadata = before @ r1 # between @ r2 # after"
    and "path r1 = Some p" and "hash r1 = Some h"
    and "path r2 = Some p" and "hash r2 = Some h"
    and "p \<noteq> []" and "h \<noteq> []"
  shows "\<exists>g \<in> set (find_duplicates file_metadata).
           count_list g p = length (filter (\<lambda>r. path r = Some p \<and> hash r = Some h) file_metadata)
           \<and> 2 \<le> count_list g p \<and> \<not> distinct g"
proof -
  let ?g = "paths_with h file_metadata"
  have g1: "grouped r1" and g2: "grouped r2"
    using assms by (simp_all add: grouped_def)
  have key: "h \<in> set (seen_hashes file_metadata)"
    using assms(1,3) g1 by (force simp: seen_hashes_def)
  have cnt: "count_list ?g p = length (filter (\<lambda>r. path r = Some p \<and> hash r = Some h) file_metadata)"
    unfolding paths_with_def count_list_map_filter filter_filter
    using assms(6,7)
    by (intro arg_cong [where f = length] filter_cong refl) (auto simp: grouped_def py_not_iff)
  have two: "2 \<le> count_list ?g p"
    unfolding cnt using assms by simp
  then have len: "1 < length ?g"
    using count_le_length [of ?g p] by linarith
  have "\<not> distinct ?g"
    using two distinct_count_list_le_1 [of ?g p] by auto
  with key len cnt two show ?thesis
    by (auto simp: find_duplicates_eq intro!: bexI [where x = ?g])
qed

subsection \<open>The dict built by \<^verbatim>\<open>calculate_wasted_space\<close>\<close>

lemma first_size_snoc:
  "first_size k (rs @ [r]) =
     (if members k rs = [] \<and> hash r = Some k then size_or_0 r else first_size k rs)"
  by (cases "members k rs") (auto simp: first_size_def members_def)

lemma size_groups_of_snoc: "size_groups_of (rs @ [r]) = wasted_step r (size_groups_of rs)"
  by (simp add: size_groups_of_def)

lemma size_groups_of_eq:
  "size_groups_of rs =
     map (\<lambda>h. (h, \<lparr>count = int (length (members h rs)), group_size = first_size h rs\<rparr>)) (digests rs)"
proof (induction rs rule: rev_induct)
  case Nil
  show ?case by (simp add: size_groups_of_def digests_def first_seen_def)
next
  case (snoc r rs)
  show ?case
  proof (cases "hashed r")
    case False
    then have "wasted_step r (size_groups_of rs) = size_groups_of rs"
      by (auto simp: wasted_step_def hashed_def Let_def)
    moreover from False have "digests (rs @ [r]) = digests rs"
      by (simp add: digests_def)
    moreover have "members h (rs @ [r]) = members h rs" if "h \<in> set (digests rs)" for h
    proof -
      from that obtain r' where "hashed r'" "h = the (hash r')" by (auto simp: digests_def)
      then have "h \<noteq> []" by (cases "hash r'") (auto simp: hashed_def)
      with False show ?thesis by (auto simp: members_def hashed_def)
    qed
    moreover have "first_size h (rs @ [r]) = first_size h rs" if "h \<in> set (digests rs)" for h
    proof -
      from that obtain r' where "hashed r'" "h = the (hash r')" by (auto simp: digests_def)
      then have "h \<noteq> []" by (cases "hash r'") (auto simp: hashed_def)
      with False show ?thesis by (auto simp: first_size_snoc hashed_def)
    qed
    ultimately show ?thesis using snoc by (simp add: size_groups_of_snoc)
  next
    case True
    then obtain h where h: "hash r = Some h" and hne: "h \<noteq> []"
      by (cases "hash r") (auto simp: hashed_def)
    have mem: "\<And>k. members k (rs @ [r]) = (if k = h then members k rs @ [r] else members k rs)"
      using h by (auto simp: members_def)
    have keys: "fst ` set (size_groups_of rs) = set (digests rs)"
      by (simp add: snoc image_image)
    show ?thesis
    proof (cases "h \<in> set (digests rs)")
      case in_keys: True
      have dg: "digests (rs @ [r]) = digests rs"
        using True h in_keys by (simp add: digests_def first_seen_snoc)
      from in_keys have ne: "members h rs \<noteq> []"
        by (auto simp: digests_def members_def filter_empty_conv hashed_def) (metis option.collapse py_not.simps(1))
      have "wasted_step r (size_groups_of rs)
            = AList.map_entry h (\<lambda>g. g\<lparr>count := count g + 1\<rparr>) (size_groups_of rs)"
        using True h in_keys keys by (simp add: wasted_step_def hashed_def Let_def)
      also have "\<dots> = map (\<lambda>k. (k, if k = h
                    then \<lparr>count = int (length (members k rs)) + 1, group_size = first_size k rs\<rparr>
                    else \<lparr>count = int (length (members k rs)), group_size = first_size k rs\<rparr>)) (digests rs)"
        by (simp add: snoc map_entry_tabulate digests_def if_distrib cong: if_cong)
      finally show ?thesis
        using ne by (auto simp add: size_groups_of_snoc dg mem first_size_snoc h)
    next
      case not_in_keys: False
      have dg: "digests (rs @ [r]) = digests rs @ [h]"
        using True h not_in_keys by (simp add: digests_def first_seen_snoc)
      have none: "members h rs = []"
        using not_in_keys hne
        by (auto simp: members_def digests_def filter_empty_conv image_iff hashed_def)
      have "wasted_step r (size_groups_of rs)
            = AList.map_entry h (\<lambda>g. g\<lparr>count := count g + 1\<rparr>)
                (AList.update h \<lparr>count = 0, group_size = size_or_0 r\<rparr> (size_groups_of rs))"
        using True h not_in_keys keys by (simp add: wasted_step_def hashed_def Let_def size_or_0_def)
      also have "\<dots> = size_groups_of rs @ [(h, \<lparr>count = 1, group_size = size_or_0 r\<rparr>)]"
        using not_in_keys keys by (simp add: snoc update_tabulate map_entry_snoc image_image)
      finally show ?thesis using not_in_keys
        by (auto simp add: size_groups_of_snoc dg mem none snoc first_size_snoc h)
    qed
  qed
qed

lemma fold_wasted_add:
  "fold wasted_add gs a =
     a + (\<Sum>g\<leftarrow>gs. if count g > 1 then (count g - 1) * group_size g else 0)"
  by (induction gs arbitrary: a) (auto simp: wasted_add_def)

lemma calculate_wasted_space_eq:
  "calculate_wasted_space rs =
     (\<Sum>h\<leftarrow>digests rs. if length (members h rs) > 1
                        then (int (length (members h rs)) - 1) * first_size h rs else 0)"
  by (simp add: calculate_wasted_space_def size_groups_of_eq fold_wasted_add comp_def cong: if_cong)

text \<open>The theorem at an input of two equal records: the group lists the path twice.\<close>

theorem find_duplicates_multiplicity_witness:
  "(\<exists>g \<in> set (find_duplicates
       [\<lparr>path = Some ''/a/1.txt'', size' = Some 100, name = Some ''1.txt'', hash = Some ''H1''\<rparr>,
        \<lparr>path = Some ''/a/1.txt'', size' = Some 100, name = Some ''1.txt'', hash = Some ''H1''\<rparr>]).
      count_list g ''/a/1.txt'' = 2 \<and> \<not> distinct g)
   \<and> find_duplicates
       [\<lparr>path = Some ''/a/1.txt'', size' = Some 100, name = Some ''1.txt'', hash = Some ''H1''\<rparr>,
        \<lparr>path = Some ''/a/1.txt'', size' = Some 100, name = Some ''1.txt'', hash = Some ''H1''\<rparr>]
     = [[''/a/1.txt'', ''/a/1.txt'']]"
proof -
  let ?r = "\<lparr>path = Some ''/a/1.txt'', size' = Some 100, name = Some ''1.txt'', hash = Some ''H1''\<rparr>"
  have "\<exists>g \<in> set (find_duplicates [?r, ?r]).
           count_list g ''/a/1.txt''
             = length (filter (\<lambda>r. path r = Some ''/a/1.txt'' \<and> hash r = Some ''H1'') [?r, ?r])
           \<and> 2 \<le> count_list g ''/a/1.txt'' \<and> \<not> distinct g"
    using find_duplicates_multiplicity [of "[?r, ?r]" "[]" ?r "[]" ?r "[]" "''/a/1.txt''" "''H1''"]
    by simp
  moreover have "find_duplicates [?r, ?r] = [[''/a/1.txt'', ''/a/1.txt'']]"
    by (simp add: find_duplicates_def hash_groups_of_def group_step_def)
  ultimately show ?thesis by simp
qed

subsection \<open>\<^verbatim>\<open>calculate_wasted_space\<close> against the groups of \<^verbatim>\<open>find_duplicates\<close>\<close>

text \<open>
  Claim C2.  \<open>calculate_wasted_space\<close> skips a record only when its hash is missing or
  empty, while \<open>find_duplicates\<close> also skips a record whose path is missing or empty.  On
  two records with the same hash and size 10, the first with an empty path,
  \<open>find_duplicates\<close> returns no group, so the sum over its groups is 0, yet
  \<open>calculate_wasted_space\<close> returns 10.
\<close>

theorem calculate_wasted_space_pathless:
  "find_duplicates pathless = []
   \<and> (\<Sum>group\<leftarrow>find_duplicates pathless. (int (length group) - 1) * 10) = 0
   \<and> calculate_wasted_space pathless = 10"
  by (simp add: pathless_def find_duplicates_def hash_groups_of_def group_step_def
      calculate_wasted_space_def size_groups_of_def wasted_step_def wasted_add_def)

text \<open>
  Where every record with a usable hash also has a usable path, the two functions agree:
  the wasted space is the sum, over the groups of two or more paths in the dict of
  \<open>find_duplicates\<close>, of the member count minus one times the size of the first record
  seen for that digest.  It is 0 when no digest repeats.
\<close>

lemma sum_list_if_filter:
  "(\<Sum>x\<leftarrow>xs. if P x then f x else (0::int)) = (\<Sum>x\<leftarrow>filter P xs. f x)"
  by (induction xs) auto

lemma calculate_wasted_space_groups:
  assumes "\<forall>r \<in> set rs. \<not> py_not (hash r) \<longrightarrow> \<not> py_not (path r)"
  shows "calculate_wasted_space rs =
     (\<Sum>(h, paths)\<leftarrow>filter (\<lambda>(h, paths). length paths > 1) (hash_groups_of rs).
         (int (length paths) - 1) * first_size h rs)"
proof -
  have fg: "filter hashed rs = filter grouped rs"
    using assms by (intro filter_cong refl) (auto simp: hashed_def grouped_def)
  then have dg: "digests rs = seen_hashes rs"
    by (simp add: digests_def seen_hashes_def)
  have len: "length (paths_with h rs) = length (members h rs)" if "h \<in> set (seen_hashes rs)" for h
  proof -
    have "h \<noteq> []" using that by (rule seen_hashes_nonempty)
    then have "filter (\<lambda>r. grouped r \<and> hash r = Some h) rs = members h rs"
      unfolding members_def using assms
      by (intro filter_cong refl) (auto simp: grouped_def)
    then show ?thesis by (simp add: paths_with_def)
  qed
  have "calculate_wasted_space rs =
     (\<Sum>h\<leftarrow>seen_hashes rs. if length (paths_with h rs) > 1
                        then (int (length (paths_with h rs)) - 1) * first_size h rs else 0)"
    unfolding calculate_wasted_space_eq dg
    by (intro arg_cong [where f = sum_list] map_cong refl) (simp add: len)
  also have "\<dots> = (\<Sum>h\<leftarrow>filter (\<lambda>h. length (paths_with h rs) > 1) (seen_hashes rs).
                        (int (length (paths_with h rs)) - 1) * first_size h rs)"
    by (rule sum_list_if_filter)
  also have "\<dots> = (\<Sum>(h, paths)\<leftarrow>filter (\<lambda>(h, paths). length paths > 1) (hash_groups_of rs).
         (int (length paths) - 1) * first_size h rs)"
    by (simp add: hash_groups_of_eq filter_map comp_def)
  finally show ?thesis .
qed

lemma calculate_wasted_space_no_repeat:
  assumes "distinct (map hash (filter (\<lambda>r. \<not> py_not (hash r)) rs))"
  shows "calculate_wasted_space rs = 0"
proof -
  have le: "length (members h rs) \<le> 1" if "h \<in> set (digests rs)" for h
  proof -
    from that obtain r' where "hashed r'" "h = the (hash r')" by (auto simp: digests_def)
    then have "h \<noteq> []" by (cases "hash r'") (auto simp: hashed_def)
    then have "members h rs = filter (\<lambda>r. hash r = Some h) (filter (\<lambda>r. \<not> py_not (hash r)) rs)"
      by (auto simp: members_def intro!: filter_cong)
    also have "length \<dots> = count_list (map hash (filter (\<lambda>r. \<not> py_not (hash r)) rs)) (Some h)"
      by (simp add: count_list_map_filter)
    also have "\<dots> \<le> 1" using assms by (rule distinct_count_list_le_1)
    finally show ?thesis .
  qed
  have "(\<Sum>h\<leftarrow>digests rs. if length (members h rs) > 1
                        then (int (length (members h rs)) - 1) * first_size h rs else 0)
             = (\<Sum>h\<leftarrow>digests rs. 0)"
    by (intro arg_cong [where f = sum_list] map_cong refl) (auto dest!: le)
  then show ?thesis by (simp add: calculate_wasted_space_eq)
qed

section \<open>Properties of the digest computation\<close>

subsection \<open>The digest is 64 lowercase hexadecimal characters\<close>

lemma hex_digit_in: "hex_digit n \<in> hex_chars"
proof -
  have "n mod 16 < length ''0123456789abcdef''" by simp
  then show ?thesis unfolding hex_digit_def hex_chars_def by (rule nth_mem)
qed

lemma length_hex32: "length (hex32 w) = 8"
  by (simp add: hex32_def)

lemma set_hex32: "set (hex32 w) \<subseteq> hex_chars"
  by (auto simp: hex32_def hex_digit_in)

lemma length_sha256_hexdigest: "length (sha256_hexdigest bs) = 64"
  by (simp add: sha256_hexdigest_def length_hex32 split: prod.split)

lemma set_sha256_hexdigest: "set (sha256_hexdigest bs) \<subseteq> hex_chars"
  using set_hex32 by (auto simp add: sha256_hexdigest_def split: prod.split)

lemma sha256_hexdigest_nonempty: "sha256_hexdigest bs \<noteq> []"
  using length_sha256_hexdigest [of bs] by auto

subsection \<open>Streaming in chunks hashes the whole content\<close>

text \<open>
  A file of \<open>n\<close> bytes takes \<open>read_calls n\<close> calls of \<^verbatim>\<open>f.read\<close>: one per chunk begun and a last
  one that returns the empty chunk.  The loop fails exactly when the faulty call is one of
  them; otherwise the hash object has been fed the content, chunk after chunk.
\<close>

lemma chunk_size_pos: "0 < chunk_size"
  by (simp add: chunk_size_def)

lemma read_calls_0: "read_calls 0 = 1"
  by (simp add: read_calls_def chunk_size_def)

lemma read_calls_step:
  assumes "0 < n"
  shows "read_calls n = Suc (read_calls (n - chunk_size))"
proof (cases "chunk_size \<le> n")
  case True
  then obtain m where n: "n = m + chunk_size" by (metis le_add_diff_inverse2)
  have "m + chunk_size + chunk_size - 1 = (m + chunk_size - 1) + chunk_size"
    using chunk_size_pos by simp
  then have "(m + chunk_size + chunk_size - 1) div chunk_size
             = Suc ((m + chunk_size - 1) div chunk_size)"
    using chunk_size_pos by (simp only: div_add_self2)
  then show ?thesis by (simp add: read_calls_def n)
next
  case False
  have "n + chunk_size - 1 = (n - 1) + chunk_size"
    using assms by simp
  moreover have "(n - 1) div chunk_size = 0"
    using False by simp
  ultimately have "(n + chunk_size - 1) div chunk_size = 1"
    using chunk_size_pos by (simp only: div_add_self2)
  moreover from False have "n - chunk_size = 0" by simp
  ultimately show ?thesis using read_calls_0 by (simp add: read_calls_def)
qed

lemma read_chunks_eq:
  "read_chunks f k rest sha =
     (if \<exists>j. read_fault f = Some j \<and> k \<le> j \<and> j < k + read_calls (length rest)
      then None else Some (sha @ rest))"
proof (induction f k rest sha rule: read_chunks.induct)
  case (1 f k rest sha)
  show ?case
  proof (cases "read_fault f = Some k")
    case True
    then show ?thesis by (subst read_chunks.simps) (auto simp: read_calls_def)
  next
    case nofault: False
    show ?thesis
    proof (cases "rest = []")
      case True
      with nofault show ?thesis
        by (subst read_chunks.simps) (auto simp: read_calls_0)
    next
      case False
      then have ne: "take chunk_size rest \<noteq> []" using chunk_size_pos by simp
      from False have rc: "read_calls (length rest) = Suc (read_calls (length (drop chunk_size rest)))"
        using read_calls_step [of "length rest"] by simp
      have "read_chunks f k rest sha
            = read_chunks f (Suc k) (drop chunk_size rest) (sha256_update sha (take chunk_size rest))"
        using nofault ne by (subst read_chunks.simps) simp
      also have "\<dots> = (if \<exists>j. read_fault f = Some j \<and> Suc k \<le> j
                                \<and> j < Suc k + read_calls (length (drop chunk_size rest))
                         then None else Some (sha @ rest))"
        unfolding "1.IH" [OF nofault ne] by (auto simp add: sha256_update_def)
      also have "\<dots> = (if \<exists>j. read_fault f = Some j \<and> k \<le> j \<and> j < k + read_calls (length rest)
                         then None else Some (sha @ rest))"
        using nofault rc by (auto simp: le_less Suc_le_eq)
      finally show ?thesis .
    qed
  qed
qed

lemma generate_file_hash_Regular:
  "generate_file_hash (Some (Regular f)) =
     (if read_error f then Inr [] else Inr (sha256_hexdigest (content f)))"
  by (auto simp: generate_file_hash_def read_chunks_eq read_error_def sha256_new_def
      split: option.splits)

text \<open>
  Where \<^verbatim>\<open>is_file()\<close> answers, \<open>generate_file_hash\<close> does what its docstring says: it returns
  the empty string when the path does not refer to an existing regular file and when
  opening the file or one of the reads raises an error; otherwise it returns the SHA-256
  digest of the whole content, 64 lowercase hexadecimal characters, so that two readable
  files with the same bytes get the same digest.
\<close>

lemma generate_file_hash_cases:
  "(is_file node = Inr False \<longrightarrow> generate_file_hash node = Inr [])
   \<and> (node = Some (Regular f) \<and> read_error f \<longrightarrow> generate_file_hash node = Inr [])
   \<and> (node = Some (Regular f) \<and> \<not> read_error f \<longrightarrow>
        generate_file_hash node = Inr (sha256_hexdigest (content f))
        \<and> length (sha256_hexdigest (content f)) = 64
        \<and> set (sha256_hexdigest (content f)) \<subseteq> set ''0123456789abcdef'')
   \<and> (node = Some (Regular f) \<and> \<not> read_error f
        \<and> node' = Some (Regular f') \<and> \<not> read_error f' \<and> content f = content f' \<longrightarrow>
        generate_file_hash node = generate_file_hash node')"
  using set_sha256_hexdigest [of "content f"]
  by (simp add: generate_file_hash_Regular length_sha256_hexdigest hex_chars_def)
     (simp add: generate_file_hash_def)

lemma example_files [simp]:
  "st_size abc_file = Some 3" "content abc_file = [0x61, 0x62, 0x63]"
  "st_size faulty_file = Some 3" "content faulty_file = [0x61, 0x62, 0x63]"
  "content abc_copy = [0x61, 0x62, 0x63]"
  by (simp_all add: abc_file_def faulty_file_def abc_copy_def)

lemma read_error_examples:
  "\<not> read_error abc_file" "\<not> read_error abc_copy" "read_error faulty_file"
  by (simp_all add: read_error_def read_calls_def chunk_size_def abc_file_def abc_copy_def
      faulty_file_def)

text \<open>
  The cases at a device, at a file whose second read fails, and at two readable files with
  the bytes \<^verbatim>\<open>abc\<close>.
\<close>

lemma generate_file_hash_examples:
  "is_file (Some Special) = Inr False \<and> generate_file_hash (Some Special) = Inr []
   \<and> read_error faulty_file \<and> generate_file_hash (Some (Regular faulty_file)) = Inr []
   \<and> \<not> read_error abc_file
   \<and> generate_file_hash (Some (Regular abc_file)) = Inr (sha256_hexdigest [0x61, 0x62, 0x63])
   \<and> length (sha256_hexdigest [0x61, 0x62, 0x63]) = 64
   \<and> \<not> read_error abc_copy \<and> content abc_file = content abc_copy
   \<and> generate_file_hash (Some (Regular abc_file)) = generate_file_hash (Some (Regular abc_copy))"
  using generate_file_hash_cases [of "Some Special" faulty_file "Some Special" faulty_file]
    generate_file_hash_cases [of "Some (Regular faulty_file)" faulty_file "Some Special" faulty_file]
    generate_file_hash_cases [of "Some (Regular abc_file)" abc_file "Some (Regular abc_copy)" abc_copy]
    read_error_examples
  by auto

text \<open>
  Claim C4.  The claim leaves two outcomes, the empty string or the digest, and the
  docstring promises the empty string on error.  For a path whose \<^verbatim>\<open>stat\<close> is denied (a file
  in a directory without search permission) \<^verbatim>\<open>path.is_file()\<close> raises, and since the call
  stands outside the \<^verbatim>\<open>try\<close>, \<open>generate_file_hash\<close> raises too: it returns neither the empty
  string nor a digest.  Inside the scanner \<open>collect_file_info\<close> absorbs the exception.
\<close>

theorem generate_file_hash_raises:
  "is_file (Some Inaccessible) = Inl OSError
   \<and> generate_file_hash (Some Inaccessible) = Inl OSError
   \<and> generate_file_hash (Some Inaccessible) \<noteq> Inr []
   \<and> collect_file_info cwd item Inaccessible = None"
  by (simp add: generate_file_hash_def collect_file_info_def)

section \<open>Properties of the traversal\<close>

subsection \<open>A sink that returns: the scan returns the records of the readable files\<close>

lemma tree_records_simps:
  "tree_records cwd p (Directory entries) = items_records cwd p entries"
  "tree_records cwd p DeniedDirectory = []"
  "tree_records cwd p (Regular f) = []"
  "tree_records cwd p Special = []"
  "tree_records cwd p Inaccessible = []"
  "items_records cwd p [] = []"
  "items_records cwd p ((entry, node) # rest) =
     file_records cwd (child p entry, node) @ tree_records cwd (child p entry) node
       @ items_records cwd p rest"
  by (simp_all add: tree_records_def items_records_def)

lemma notify_files [simp]: "scanned_files (snd (notify cb message st)) = scanned_files st"
  by (simp add: notify_def split: option.split prod.split)

lemma notify_returns: "sink_returns cb \<Longrightarrow> fst (notify cb message st) = Inr ()"
proof (cases cb)
  case None
  then show ?thesis by (simp add: notify_def)
next
  case (Some callback)
  assume "sink_returns cb"
  with Some have "fst (callback message (scanned_files st) (sink_state st)) = None"
    by (simp add: sink_returns_def)
  with Some show ?thesis
    by (cases "callback message (scanned_files st) (sink_state st)") (simp add: notify_def)
qed

lemma print_notify:
  "notify (Some print_progress) message st
     = (Inr (), st\<lparr>sink_state := sink_state st @ [''[INFO] '' @ message]\<rparr>)"
  by (simp add: notify_def print_progress_def)

lemma scan_file_returns:
  assumes "sink_returns cb"
  shows "fst (scan_file cb cwd item node st) = Inr ()"
    and "scanned_files (snd (scan_file cb cwd item node st))
         = scanned_files st
           @ (case collect_file_info cwd item node of None \<Rightarrow> [] | Some file_info \<Rightarrow> [file_info])"
  by (simp_all add: scan_file_def case_prod_beta Let_def notify_returns [OF assms]
      split: option.split)

lemma scan_returns:
  assumes "sink_returns cb"
  shows "fst (scan_recursive cb cwd p node st) = Inr ()
         \<and> scanned_files (snd (scan_recursive cb cwd p node st))
           = scanned_files st @ tree_records cwd p node"
    and "fst (scan_items cb cwd p entries st) = Inr ()
         \<and> scanned_files (snd (scan_items cb cwd p entries st))
           = scanned_files st @ items_records cwd p entries"
proof (induction p node and p entries arbitrary: st and st rule: walk_walk_items.induct)
  case (1 p entries)
  then show ?case
    by (simp add: tree_records_simps case_prod_beta)
next
  case (7 p entry node rest)
  note rec = "7.IH"(1) and loop = "7.IH"(2)
  show ?case
  proof (cases node)
    case (Regular f)
    then show ?thesis
      by (simp add: tree_records_simps case_prod_beta scan_file_returns [OF assms] loop)
  next
    case (Directory es)
    then show ?thesis
      using rec [of st]
      by (simp add: tree_records_simps case_prod_beta loop del: scan_recursive.simps)
  next
    case DeniedDirectory
    then show ?thesis
      by (simp add: tree_records_simps case_prod_beta notify_returns [OF assms] loop)
  next
    case Special
    then show ?thesis
      by (simp add: tree_records_simps loop)
  next
    case Inaccessible
    then show ?thesis
      by (simp add: tree_records_simps case_prod_beta notify_returns [OF assms] loop)
  qed
qed (simp_all add: tree_records_simps notify_returns [OF assms])

lemma is_dir_True: "is_dir root = Inr True \<Longrightarrow> exists root = Inr True \<and> root \<noteq> None"
  by (cases root rule: is_dir.cases) simp_all

lemma scan_directory_returns:
  assumes "sink_returns cb" and "is_dir root = Inr True"
  shows "fst (scan_directory cb cwd directory_path root st)
         = Inr (tree_records cwd (Path directory_path) (the root))"
  using is_dir_True [OF assms(2)] assms(2)
  by (simp add: scan_directory_def Let_def case_prod_beta notify_returns [OF assms(1)]
      scan_returns(1) [OF assms(1)])

lemma scan_directory_not_dir:
  assumes "is_dir root \<noteq> Inr True"
  shows "scan_directory cb cwd directory_path root st
         = (case exists root of
              Inl e \<Rightarrow> Inl e
            | Inr False \<Rightarrow> Inl (ValueError (''Directory does not exist: '' @ directory_path))
            | Inr True \<Rightarrow> Inl (ValueError (''Path is not a directory: '' @ directory_path)),
            st\<lparr>scanned_files := []\<rparr>)"
  using assms by (cases root rule: is_dir.cases) (simp_all add: scan_directory_def)

text \<open>
  Claim C8, amended.  For every tree and every progress sink that only observes, that is,
  a sink that changes nothing but a state of its own (the sinks of this model) and that
  raises no exception, whatever message it is called with, \<open>scan_directory\<close> has the same
  outcome, the same list of records or the same error of the root, as without a sink and
  as with a sink that does nothing.
\<close>

theorem scan_directory_sink_independent:
  assumes "sink_returns progress_callback"
  shows "fst (scan_directory progress_callback cwd directory_path root st)
           = fst (scan_directory None cwd directory_path root st)
       \<and> fst (scan_directory progress_callback cwd directory_path root st)
           = fst (scan_directory (Some (\<lambda>message scanned s. (None, s))) cwd directory_path root st)"
proof -
  have none: "sink_returns (None :: 'a sink option)"
    and noop: "sink_returns (Some (\<lambda>message scanned (s :: 'a). (None :: py_exception option, s)))"
    by (simp_all add: sink_returns_def)
  show ?thesis
  proof (cases "is_dir root = Inr True")
    case True
    then show ?thesis
      by (simp add: scan_directory_returns [OF assms] scan_directory_returns [OF none]
          scan_directory_returns [OF noop])
  next
    case False
    then show ?thesis by (simp add: scan_directory_not_dir)
  qed
qed

subsection \<open>The two fatal errors of the root\<close>


subsection \<open>Any sink: only records of readable files are emitted\<close>

lemma file_records_subset:
  "set (file_records cwd (item, node))
     = (case collect_file_info cwd item node of None \<Rightarrow> {} | Some r \<Rightarrow> {r})"
  by (cases node) (auto simp: collect_file_info_def generate_file_hash_def split: option.splits)

lemma scan_file_files:
  "set (scanned_files (snd (scan_file cb cwd item node st)))
     \<subseteq> set (scanned_files st) \<union> set (file_records cwd (item, node))"
  by (auto simp: scan_file_def case_prod_beta Let_def file_records_subset
      split: sum.splits option.splits if_splits)

lemma scan_files:
  "set (scanned_files (snd (scan_recursive cb cwd p node st)))
     \<subseteq> set (scanned_files st) \<union> set (tree_records cwd p node)"
  "set (scanned_files (snd (scan_items cb cwd p entries st)))
     \<subseteq> set (scanned_files st) \<union> set (items_records cwd p entries)"
proof (induction p node and p entries arbitrary: st and st rule: walk_walk_items.induct)
  case (1 p entries)
  then show ?case
    by (auto simp add: tree_records_simps case_prod_beta split: sum.splits)
next
  case (7 p entry node rest)
  note rec = "7.IH"(1) and loop = "7.IH"(2)
  have item: "set (scanned_files (snd (scan_file cb cwd (child p entry) node st)))
     \<subseteq> set (scanned_files st) \<union> set (file_records cwd (child p entry, node))"
    by (rule scan_file_files)
  show ?case
  proof (cases node)
    case (Regular f)
    then show ?thesis
      using item
      by (auto simp add: tree_records_simps case_prod_beta split: sum.splits
          dest!: subsetD [OF loop])
  next
    case (Directory es)
    then show ?thesis
      using rec [of st]
      by (auto simp add: tree_records_simps case_prod_beta split: sum.splits
          simp del: scan_recursive.simps dest!: subsetD [OF loop])
  next
    case DeniedDirectory
    then show ?thesis
      by (auto simp add: tree_records_simps case_prod_beta split: sum.splits
          dest!: subsetD [OF loop])
  next
    case Special
    then show ?thesis
      by (auto simp add: tree_records_simps dest!: subsetD [OF loop])
  next
    case Inaccessible
    then show ?thesis
      by (auto simp add: tree_records_simps case_prod_beta split: sum.splits
          dest!: subsetD [OF loop])
  qed
qed (simp_all add: tree_records_simps)

lemma scan_directory_files:
  assumes "fst (scan_directory cb cwd directory_path root st) = Inr files'"
  shows "is_dir root = Inr True
         \<and> set files' \<subseteq> set (tree_records cwd (Path directory_path) (the root))"
proof -
  have dir: "is_dir root = Inr True"
  proof (rule ccontr)
    assume "is_dir root \<noteq> Inr True"
    from scan_directory_not_dir [OF this, of cb cwd directory_path st] assms
    show False by (simp split: sum.splits bool.splits)
  qed
  let ?st1 = "snd (notify cb ''Starting scan...'' (st\<lparr>scanned_files := []\<rparr>))"
  let ?st2 = "snd (scan_recursive cb cwd (Path directory_path) (the root) ?st1)"
  have "set (scanned_files ?st2) \<subseteq> set (scanned_files ?st1)
          \<union> set (tree_records cwd (Path directory_path) (the root))"
    by (rule scan_files(1))
  moreover have "scanned_files ?st1 = []" by simp
  moreover have "files' = scanned_files ?st2"
    using assms is_dir_True [OF dir] dir
    by (simp add: scan_directory_def Let_def case_prod_beta split: sum.splits)
  ultimately show ?thesis using dir by simp
qed

lemma tree_records_walk:
  assumes "r \<in> set (tree_records cwd p node)"
  shows "\<exists>item f. (item, Regular f) \<in> set (walk p node)
           \<and> collect_file_info cwd item (Regular f) = Some r"
proof -
  from assms obtain item n where w: "(item, n) \<in> set (walk p node)"
    and r: "r \<in> set (file_records cwd (item, n))"
    by (auto simp: tree_records_def)
  from r obtain f where "n = Regular f" by (cases n) simp_all
  with w r show ?thesis by (auto split: option.splits)
qed

lemma collect_file_info_Some:
  assumes "collect_file_info cwd item (Regular f) = Some r"
  shows "\<exists>n. st_size f = Some n \<and> \<not> read_error f
           \<and> r = \<lparr>path = Some (path_str (absolute cwd item)), size' = Some (int n),
                   name = Some (path_name item), hash = Some (sha256_hexdigest (content f))\<rparr>"
  using assms sha256_hexdigest_nonempty [of "content f"]
  by (auto simp: collect_file_info_def generate_file_hash_Regular
      split: option.splits sum.splits if_splits)

lemma path_str_absolute: "take 1 (path_str (absolute cwd p)) = ''/''"
  by (cases "anchor p") (simp_all add: path_str_def absolute_def is_absolute_def)

text \<open>
  Claim C3.  Whether the sink returns or raises, every record of the list \<open>scan_directory\<close> returns
  belongs to a regular file of the tree whose digest was computed: no read error occurred,
  \<^verbatim>\<open>stat\<close> succeeded, the record's hash is the file's digest and is not empty, its size is the
  size \<^verbatim>\<open>stat\<close> reported (a natural number), its name is the last component of the file's
  path and its path is the absolute path, which starts with \<^verbatim>\<open>/\<close>.
\<close>

theorem scan_directory_records:
  assumes "fst (scan_directory progress_callback cwd directory_path root st) = Inr files'"
    and "r \<in> set files'"
  shows "\<exists>node item f n.
           root = Some node \<and> (item, Regular f) \<in> set (walk (Path directory_path) node)
           \<and> generate_file_hash (Some (Regular f)) = Inr (sha256_hexdigest (content f))
           \<and> \<not> read_error f \<and> st_size f = Some n
           \<and> r = \<lparr>path = Some (path_str (absolute cwd item)), size' = Some (int n),
                   name = Some (path_name item), hash = Some (sha256_hexdigest (content f))\<rparr>
           \<and> sha256_hexdigest (content f) \<noteq> []
           \<and> take 1 (path_str (absolute cwd item)) = ''/''"
proof -
  from scan_directory_files [OF assms(1)] assms(2)
  have dir: "is_dir root = Inr True"
    and r: "r \<in> set (tree_records cwd (Path directory_path) (the root))"
    by auto
  from dir obtain node where root: "root = Some node"
    using is_dir_True by (cases root) auto
  from tree_records_walk [OF r] root obtain item f
    where w: "(item, Regular f) \<in> set (walk (Path directory_path) node)"
      and c: "collect_file_info cwd item (Regular f) = Some r"
    by auto
  from collect_file_info_Some [OF c] obtain n where n: "st_size f = Some n"
    and ok: "\<not> read_error f"
    and rec: "r = \<lparr>path = Some (path_str (absolute cwd item)), size' = Some (int n),
                   name = Some (path_name item), hash = Some (sha256_hexdigest (content f))\<rparr>"
    by blast
  from ok have "generate_file_hash (Some (Regular f)) = Inr (sha256_hexdigest (content f))"
    by (simp add: generate_file_hash_Regular)
  with root w n ok rec sha256_hexdigest_nonempty path_str_absolute show ?thesis
    by blast
qed

subsection \<open>A directory with an unreadable subdirectory and a readable file\<close>

lemma Path_data: "Path ''/data'' = PosixPath Slash [''data'']"
  by (simp add: Path_def)

lemma collect_abc:
  "collect_file_info [''home''] (PosixPath Slash [''data'', ''a.txt'']) (Regular abc_file)
     = Some abc_record"
  using read_error_examples(1) sha256_hexdigest_nonempty [of "[0x61, 0x62, 0x63]"]
  by (simp add: collect_file_info_def generate_file_hash_Regular abc_record_def
      path_str_def is_absolute_def absolute_def path_name_def)

lemma locked_tree_records:
  "tree_records [''home''] (Path ''/data'') locked_tree = [abc_record]"
  by (simp add: locked_tree_def tree_records_simps Path_data child_def collect_abc)

lemma sink_returns_None: "sink_returns None"
  by (simp add: sink_returns_def)

lemma sink_returns_recorder: "sink_returns (Some recorder)"
  by (simp add: sink_returns_def recorder_def)

lemma scan_locked_tree:
  "sink_returns cb \<Longrightarrow>
   fst (scan_directory cb [''home''] ''/data'' (Some locked_tree) st) = Inr [abc_record]"
  using scan_directory_returns [of cb "Some locked_tree" "[''home'']" "''/data''" st]
  by (simp add: locked_tree_records) (simp add: locked_tree_def)

text \<open>The theorem of claim C3 at that directory and its one record.\<close>

theorem scan_directory_records_witness:
  "fst (scan_directory None [''home''] ''/data'' (Some locked_tree) idle) = Inr [abc_record]
   \<and> abc_record \<in> set [abc_record]
   \<and> (\<exists>node item f n.
         Some locked_tree = Some node \<and> (item, Regular f) \<in> set (walk (Path ''/data'') node)
         \<and> generate_file_hash (Some (Regular f)) = Inr (sha256_hexdigest (content f))
         \<and> \<not> read_error f \<and> st_size f = Some n
         \<and> abc_record = \<lparr>path = Some (path_str (absolute [''home''] item)), size' = Some (int n),
                   name = Some (path_name item), hash = Some (sha256_hexdigest (content f))\<rparr>
         \<and> sha256_hexdigest (content f) \<noteq> []
         \<and> take 1 (path_str (absolute [''home''] item)) = ''/'')"
proof -
  have run: "fst (scan_directory None [''home''] ''/data'' (Some locked_tree) idle) = Inr [abc_record]"
    by (rule scan_locked_tree [OF sink_returns_None])
  have mem: "abc_record \<in> set [abc_record]" by simp
  from scan_directory_records [OF run mem] run mem show ?thesis by blast
qed


text \<open>The theorem of claim C8 at a sink that keeps the messages in a list.\<close>

theorem scan_directory_sink_independent_witness:
  "sink_returns (Some recorder)
   \<and> fst (scan_directory (Some recorder) [''home''] ''/data'' (Some locked_tree) empty_log)
       = fst (scan_directory None [''home''] ''/data'' (Some locked_tree) empty_log)
   \<and> fst (scan_directory (Some recorder) [''home''] ''/data'' (Some locked_tree) empty_log)
       = Inr [abc_record]"
  using scan_directory_sink_independent [OF sink_returns_recorder,
      of "[''home'']" "''/data''" "Some locked_tree" empty_log]
    sink_returns_recorder scan_locked_tree [OF sink_returns_recorder, of empty_log]
  by simp

text \<open>
  Claim C8 as stated, for every sink, fails.  A sink that raises \<^verbatim>\<open>OSError\<close> at each call
  (a console whose pipe is closed) makes \<open>scan_directory\<close> raise at \<^verbatim>\<open>Starting scan...\<close>, and a
  sink that raises \<^verbatim>\<open>OSError\<close> at the messages \<^verbatim>\<open>Scanning: ...\<close> makes the inner handler skip
  every file, so that the scan returns the empty list; without a sink the same directory
  yields one record.
\<close>

theorem scan_directory_sink_raises:
  "fst (scan_directory (Some broken_pipe) [''home''] ''/data'' (Some locked_tree) idle)
     = Inl OSError
   \<and> fst (scan_directory (Some no_scanning) [''home''] ''/data'' (Some locked_tree) idle) = Inr []
   \<and> fst (scan_directory None [''home''] ''/data'' (Some locked_tree) idle) = Inr [abc_record]
   \<and> abc_record \<noteq> \<lparr>path = None, size' = None, name = None, hash = None\<rparr>"
proof -
  have 1: "fst (scan_directory (Some broken_pipe) [''home''] ''/data'' (Some locked_tree) idle)
     = Inl OSError"
    by (simp add: scan_directory_def locked_tree_def notify_def broken_pipe_def)
  have 2: "fst (scan_directory (Some no_scanning) [''home''] ''/data'' (Some locked_tree) idle)
     = Inr []"
    by (simp add: scan_directory_def locked_tree_def notify_def no_scanning_def idle_def
        scan_file_def Path_data child_def path_str_def is_absolute_def)
  have 3: "fst (scan_directory None [''home''] ''/data'' (Some locked_tree) idle) = Inr [abc_record]"
    by (rule scan_locked_tree [OF sink_returns_None])
  show ?thesis using 1 2 3 by (simp add: abc_record_def)
qed

subsection \<open>Milestone messages\<close>

lemma str_nat_0: "str_nat 0 = ''0''"
  by (simp add: str_nat.simps)

text \<open>
  What \<open>print_progress\<close> receives for one regular file: its \<^verbatim>\<open>Scanning\<close> line and then, when
  the number of records is a multiple of 100 after the file has been handled, a milestone.
  When a record is appended this is the case exactly when the new count is a multiple of
  100; when none is appended the milestone of the unchanged count is printed once more.
\<close>

lemma scan_file_console:
  "sink_state (snd (scan_file (Some print_progress) cwd item node st))
     = sink_state st @ [''[INFO] '' @ ''Scanning: '' @ path_str item]
       @ (let n = length (scanned_files st)
                    + (case collect_file_info cwd item node of None \<Rightarrow> 0 | Some r \<Rightarrow> 1)
          in if n mod 100 = 0 then [''[INFO] '' @ ''Files found: '' @ str_nat n] else [])"
  by (simp add: scan_file_def print_notify Let_def split: option.split)

text \<open>
  Claim C9.  The milestone test \<^verbatim>\<open>len(self.scanned_files) % 100 == 0\<close> runs after every regular
  file examined, also when no record was appended.  In a directory whose only file cannot
  be read, the console shows the milestone \<^verbatim>\<open>Files found: 0\<close> although the number of recorded
  files has not reached a new multiple of 100.
\<close>

theorem scan_directory_milestone_without_record:
  "scan_directory (Some print_progress) [''home''] ''/data'' (Some faulty_tree) console
     = (Inr [],
        \<lparr>scanned_files = [],
           sink_state = [''[INFO] Starting scan...'',
                         ''[INFO] Scanning: /data/a.txt'',
                         ''[INFO] Files found: 0'',
                         ''[INFO] Scan complete! Found 0 files.'']\<rparr>)"
  using read_error_examples(3)
  by (simp add: scan_directory_def faulty_tree_def notify_def print_progress_def console_def
      scan_file_def Path_data child_def path_str_def is_absolute_def collect_file_info_def
      generate_file_hash_Regular str_nat_0)

subsection \<open>Unreadable entries are skipped and the traversal goes on\<close>























end
